theory Spec2Isabelle
  imports Main "HOL-Library.Multiset"
begin

section \<open>urlcheck: a shallow embedding of the URL checker\<close>

text \<open>
  The program is a Go command-line tool. Its newer source file holds \<open>validateURL\<close>,
  \<open>checkURL\<close> with a retry loop, \<open>checkURLs\<close>, \<open>printResult\<close> and \<open>main\<close>;
  \<open>main.go\<close> holds an older \<open>checkURL\<close> without validation and retries, and the same
  \<open>checkURLs\<close> and \<open>printResult\<close>.

  Conventions of the embedding:
  \<^item> Go's \<open>int\<close> and \<open>time.Duration\<close> (an \<open>int64\<close> of nanoseconds) are Isabelle
    integers, and every addition and multiplication of the source is wrapped to the
    64-bit two's complement range by \<open>wrap64\<close> (a 64-bit platform).
  \<^item> \<open>string\<close> is a list of bytes, as Go's \<open>string\<close> is.
  \<^item> What the standard library and the network decide is a parameter: the parser
    \<open>url.Parse\<close>, the outcome of every \<open>client.Get\<close>, the clock, the text of a duration,
    and \<open>strings.ToLower\<close> outside ASCII.
  \<^item> Every call with an effect is recorded in a trace of events, so that the number of
    attempts and the sleeps between them can be stated.
  \<^item> A nil dereference is the value \<open>Panic\<close>; a loop that never ends is the value
    \<open>None\<close> of a \<^theory_text>\<open>partial_function\<close>.
\<close>

subsection \<open>Integers and formatting\<close>

definition wrap64 :: "int \<Rightarrow> int" where
  "wrap64 i = (i + 2 ^ 63) mod 2 ^ 64 - 2 ^ 63"

definition is_int64 :: "int \<Rightarrow> bool" where
  "is_int64 i = (- (2 ^ 63) \<le> i \<and> i < 2 ^ 63)"

text \<open>\<open>time.Millisecond\<close> and \<open>time.Second\<close>, in nanoseconds.\<close>

definition Millisecond :: int where
  "Millisecond = 1000000"

definition Second :: int where
  "Second = 1000000000"

text \<open>The verb \<open>%d\<close> of \<open>fmt\<close>: decimal digits, with a minus sign below zero.\<close>

definition digit_char :: "nat \<Rightarrow> char" where
  "digit_char d = ''0123456789'' ! d"

fun digits :: "nat \<Rightarrow> string" where
  "digits n = (if n < 10 then [digit_char n] else digits (n div 10) @ [digit_char (n mod 10)])"

declare digits.simps [simp del]

definition fmt_d :: "int \<Rightarrow> string" where
  "fmt_d i = (if i < 0 then CHR ''-'' # digits (nat (- i)) else digits (nat i))"

subsection \<open>The result model and the checker\<close>

record URLResult =
  URL :: string
  StatusCode :: int
  ResponseTime :: int
  KeywordFound :: bool
  Error :: string

text \<open>\<open>URLResult{URL: rawURL}\<close>: every other field has its zero value.\<close>

definition new_result :: "string \<Rightarrow> URLResult" where
  "new_result rawURL =
     \<lparr>URL = rawURL, StatusCode = 0, ResponseTime = 0, KeywordFound = False, Error = []\<rparr>"

text \<open>
  \<open>URLChecker\<close>: the client is represented by its timeout; what its \<open>Get\<close> returns is
  part of the environment below.
\<close>

record URLChecker =
  client_timeout :: int
  retries :: int

definition NewURLChecker :: "int \<Rightarrow> int \<Rightarrow> URLChecker" where
  "NewURLChecker timeout n = \<lparr>client_timeout = timeout, retries = n\<rparr>"

subsection \<open>validateURL\<close>

text \<open>
  The two fields of \<open>url.URL\<close> that the program reads. \<open>url.Parse\<close> is a parameter
  \<open>parse\<close>: \<open>Inl e\<close> is a parse error with text \<open>e\<close>, \<open>Inr u\<close> the parsed URL.
\<close>

record ParsedURL =
  Scheme :: string
  Host :: string

type_synonym url_parser = "string \<Rightarrow> string + ParsedURL"

text \<open>One constructor for each \<open>fmt.Errorf\<close> of \<open>validateURL\<close>, in the source's order.\<close>

datatype ValidationError = EmptyURL | MalformedURL string | UnsupportedScheme | MissingHost

fun error_text :: "ValidationError \<Rightarrow> string" where
  "error_text EmptyURL = ''URL is empty''"
| "error_text (MalformedURL e) = ''invalid URL: '' @ e"
| "error_text UnsupportedScheme = ''URL must use http or https scheme''"
| "error_text MissingHost = ''URL must have a valid host''"

definition validateURL :: "url_parser \<Rightarrow> string \<Rightarrow> ValidationError + unit" where
  "validateURL parse rawURL =
     (if rawURL = [] then Inl EmptyURL
      else case parse rawURL of
        Inl e \<Rightarrow> Inl (MalformedURL e)
      | Inr u \<Rightarrow>
          if Scheme u \<noteq> ''http'' \<and> Scheme u \<noteq> ''https'' then Inl UnsupportedScheme
          else if Host u = [] then Inl MissingHost
          else Inr ())"

subsection \<open>Keyword search\<close>

text \<open>
  \<open>strings.ToLower\<close>: a string of ASCII bytes is lowered byte by byte; any other string
  goes through the Unicode tables, the parameter \<open>unicode_lower\<close>.
\<close>

definition is_ascii :: "string \<Rightarrow> bool" where
  "is_ascii s = (\<forall>c \<in> set s. (of_char c :: nat) < 128)"

definition lower_byte :: "char \<Rightarrow> char" where
  "lower_byte c =
     (if (65 :: nat) \<le> of_char c \<and> (of_char c :: nat) \<le> 90 then char_of (of_char c + (32 :: nat))
      else c)"

definition ToLower :: "(string \<Rightarrow> string) \<Rightarrow> string \<Rightarrow> string" where
  "ToLower unicode_lower s = (if is_ascii s then map lower_byte s else unicode_lower s)"

text \<open>\<open>strings.HasPrefix\<close> and \<open>strings.Contains\<close>.\<close>

fun HasPrefix :: "string \<Rightarrow> string \<Rightarrow> bool" where
  "HasPrefix s [] = True"
| "HasPrefix [] (p # ps) = False"
| "HasPrefix (c # s) (p # ps) = (c = p \<and> HasPrefix s ps)"

fun Contains :: "string \<Rightarrow> string \<Rightarrow> bool" where
  "Contains [] substr = (substr = [])"
| "Contains (c # s) substr = (HasPrefix (c # s) substr \<or> Contains s substr)"

subsection \<open>checkURL\<close>

text \<open>
  The environment of one check. \<open>get k\<close> is what the \<open>k\<close>-th call of \<open>client.Get\<close>
  returns (counted from 0): a transport error with its text, or a response with its
  status code and with what \<open>io.ReadAll\<close> of its body will give (\<open>Inl\<close> a read error,
  \<open>Inr\<close> the body). \<open>since_start\<close> is the value of \<open>time.Since(start)\<close>.
\<close>

datatype get_outcome = TransportError string | Response int "string + string"

record net =
  get :: "nat \<Rightarrow> get_outcome"
  since_start :: int

datatype event =
    GetFailed string
  | GotResponse int
  | Slept int
  | ReadFailed string
  | ReadBody
  | ClosedBody

datatype 'a outcome = Return 'a | Panic

text \<open>The sleep after the failed attempt \<open>attempt\<close>:
  \<open>time.Duration(attempt+1) * 500 * time.Millisecond\<close>.\<close>

definition backoff :: "int \<Rightarrow> int" where
  "backoff attempt = wrap64 (wrap64 (wrap64 (attempt + 1) * 500) * Millisecond)"

text \<open>
  The retry loop. \<open>attempt\<close> is the loop variable, \<open>k\<close> counts the calls of \<open>Get\<close>,
  \<open>prev\<close> is the outcome of the latest call (\<open>None\<close> before the first: \<open>resp\<close> and
  \<open>err\<close> are both nil), \<open>tr\<close> the trace so far.
\<close>

partial_function (option) attempt_loop ::
  "(nat \<Rightarrow> get_outcome) \<Rightarrow> int \<Rightarrow> int \<Rightarrow> nat \<Rightarrow> get_outcome option \<Rightarrow> event list
     \<Rightarrow> (get_outcome option \<times> event list) option"
where
  "attempt_loop g n attempt k prev tr =
     (if attempt \<le> n then
        (case g k of
           Response st body \<Rightarrow> Some (Some (Response st body), tr @ [GotResponse st])
         | TransportError e \<Rightarrow>
             attempt_loop g n (wrap64 (attempt + 1)) (Suc k) (Some (TransportError e))
               (tr @ GetFailed e # (if attempt < n then [Slept (backoff attempt)] else [])))
      else Some (prev, tr))"

declare attempt_loop.simps [code]

text \<open>What follows the loop, from \<open>if err != nil\<close> to the end of \<open>checkURL\<close>.\<close>

definition after_loop ::
  "(string \<Rightarrow> string) \<Rightarrow> URLChecker \<Rightarrow> net \<Rightarrow> string \<Rightarrow> URLResult
     \<Rightarrow> get_outcome option \<times> event list \<Rightarrow> URLResult outcome \<times> event list"
where
  "after_loop unicode_lower c env keyword result s =
     (case s of
        (Some (TransportError e), tr) \<Rightarrow>
          (Return (result\<lparr>Error :=
             ''failed after '' @ fmt_d (wrap64 (retries c + 1)) @ '' retries: '' @ e\<rparr>), tr)
      | (None, tr) \<Rightarrow> (Panic, tr)
      | (Some (Response st body), tr) \<Rightarrow>
          (let result = result\<lparr>StatusCode := st, ResponseTime := since_start env\<rparr> in
           if keyword \<noteq> [] then
             (case body of
                Inl e \<Rightarrow>
                  (Return (result\<lparr>Error := ''error reading body: '' @ e\<rparr>),
                   tr @ [ReadFailed e, ClosedBody])
              | Inr text \<Rightarrow>
                  (Return (result\<lparr>KeywordFound :=
                     Contains (ToLower unicode_lower text) (ToLower unicode_lower keyword)\<rparr>),
                   tr @ [ReadBody, ClosedBody]))
           else (Return result, tr @ [ClosedBody])))"

definition checkURL ::
  "url_parser \<Rightarrow> (string \<Rightarrow> string) \<Rightarrow> URLChecker \<Rightarrow> net \<Rightarrow> string \<Rightarrow> string
     \<Rightarrow> (URLResult outcome \<times> event list) option"
where
  "checkURL parse unicode_lower c env rawURL keyword =
     (let result = new_result rawURL in
      case validateURL parse rawURL of
        Inl err \<Rightarrow> Some (Return (result\<lparr>Error := error_text err\<rparr>), [])
      | Inr _ \<Rightarrow>
          map_option (after_loop unicode_lower c env keyword result)
            (attempt_loop (get env) (retries c) 0 0 None []))"

text \<open>
  \<open>checkURL\<close> of \<open>main.go\<close>: no validation, one call of \<open>Get\<close>, and the error text of
  the transport as it is.
\<close>

definition checkURL_main_go ::
  "(string \<Rightarrow> string) \<Rightarrow> net \<Rightarrow> string \<Rightarrow> string \<Rightarrow> URLResult \<times> event list"
where
  "checkURL_main_go unicode_lower env url keyword =
     (let result = new_result url in
      case get env 0 of
        TransportError e \<Rightarrow> (result\<lparr>Error := e\<rparr>, [GetFailed e])
      | Response st body \<Rightarrow>
          (let result = result\<lparr>StatusCode := st, ResponseTime := since_start env\<rparr> in
           if keyword \<noteq> [] then
             (case body of
                Inl e \<Rightarrow>
                  (result\<lparr>Error := ''Error reading body: '' @ e\<rparr>,
                   [GotResponse st, ReadFailed e, ClosedBody])
              | Inr text \<Rightarrow>
                  (result\<lparr>KeywordFound :=
                     Contains (ToLower unicode_lower text) (ToLower unicode_lower keyword)\<rparr>,
                   [GotResponse st, ReadBody, ClosedBody]))
           else (result, [GotResponse st, ClosedBody])))"

subsection \<open>checkURLs\<close>

text \<open>
  One goroutine per URL sends its result to a channel with room for all of them; after
  \<open>wg.Wait()\<close> the channel is closed and read \<open>len(urls)\<close> times. The channel is first
  in, first out, so what it holds is the results in the order in which the goroutines
  finished. That order is the parameter \<open>order\<close>, a list of goroutine indices; any
  permutation of the indices can happen (\<open>valid_schedule\<close>).

  A panic in one goroutine ends the program; a goroutine that never finishes keeps
  \<open>wg.Wait()\<close> from returning.
\<close>

definition valid_schedule :: "nat \<Rightarrow> nat list \<Rightarrow> bool" where
  "valid_schedule n order = (distinct order \<and> set order = {0..<n})"

text \<open>
  The same as a step relation: from the set \<open>running\<close> of goroutines that have not sent
  their result yet, any one may send next.
\<close>

inductive completion :: "nat set \<Rightarrow> nat list \<Rightarrow> bool" where
  all_sent: "completion {} []"
| send: "idx \<in> running \<Longrightarrow> completion (running - {idx}) order \<Longrightarrow>
         completion running (idx # order)"

definition zero_result :: URLResult where
  "zero_result = new_result []"

text \<open>\<open><-resultChan\<close> on the closed channel: the oldest value, or the zero value once
  the channel is empty.\<close>

fun receive :: "URLResult list \<Rightarrow> URLResult \<times> URLResult list" where
  "receive [] = (zero_result, [])"
| "receive (r # chan) = (r, chan)"

text \<open>\<open>for i := 0; i < len(urls); i++ { results[i] = <-resultChan }\<close>\<close>

definition receive_all :: "nat \<Rightarrow> URLResult list \<Rightarrow> URLResult list" where
  "receive_all n chan =
     fst (fold (\<lambda>i (results, ch). case receive ch of (r, ch') \<Rightarrow> (results[i := r], ch'))
            [0..<n] (replicate n zero_result, chan))"

fun returned :: "URLResult outcome option \<Rightarrow> URLResult" where
  "returned (Some (Return r)) = r"
| "returned _ = zero_result"

text \<open>
  The body of \<open>checkURLs\<close>, the same text in both source files. \<open>check idx u\<close> is the
  call \<open>c.checkURL(u, keyword)\<close> of goroutine \<open>idx\<close>.
\<close>

definition dispatch ::
  "(nat \<Rightarrow> string \<Rightarrow> URLResult outcome option) \<Rightarrow> nat list \<Rightarrow> string list
     \<Rightarrow> URLResult list outcome option"
where
  "dispatch check order urls =
     (let n = length urls;
          finished = map (\<lambda>idx. check idx (urls ! idx)) [0..<n]
      in if Some Panic \<in> set finished then Some Panic
         else if None \<in> set finished then None
         else Some (Return (receive_all n (map (\<lambda>idx. returned (finished ! idx)) order))))"

text \<open>Each goroutine has its own network environment \<open>env idx\<close>.\<close>

definition checkURLs ::
  "url_parser \<Rightarrow> (string \<Rightarrow> string) \<Rightarrow> URLChecker \<Rightarrow> (nat \<Rightarrow> net) \<Rightarrow> nat list
     \<Rightarrow> string list \<Rightarrow> string \<Rightarrow> URLResult list outcome option"
where
  "checkURLs parse unicode_lower c env order urls keyword =
     dispatch (\<lambda>idx u. map_option fst (checkURL parse unicode_lower c (env idx) u keyword))
       order urls"

definition checkURLs_main_go ::
  "(string \<Rightarrow> string) \<Rightarrow> (nat \<Rightarrow> net) \<Rightarrow> nat list \<Rightarrow> string list \<Rightarrow> string
     \<Rightarrow> URLResult list outcome option"
where
  "checkURLs_main_go unicode_lower env order urls keyword =
     dispatch (\<lambda>idx u. Some (Return (fst (checkURL_main_go unicode_lower (env idx) u keyword))))
       order urls"

subsection \<open>printResult\<close>

text \<open>
  Standard output is a string that every print extends. The method \<open>String\<close> of
  \<open>time.Duration\<close>, which \<open>%s\<close> calls, is the parameter \<open>duration_text\<close>.
\<close>

definition newline :: string where
  "newline = [CHR 0x0A]"

definition printResult :: "(int \<Rightarrow> string) \<Rightarrow> URLResult \<Rightarrow> string \<Rightarrow> string" where
  "printResult duration_text r out =
     (if Error r \<noteq> [] then out @ URL r @ '': Error - '' @ Error r @ newline
      else
        (let out = out @ URL r @ '': Status='' @ fmt_d (StatusCode r) @ '', ResponseTime=''
                     @ duration_text (ResponseTime r);
             out = (if KeywordFound r then out @ '', Keyword=Found''
                    else if StatusCode r = 200 then out @ '', Keyword=NotFound''
                    else out)
         in out @ newline))"

subsection \<open>main: the start of the program\<close>

record flags =
  timeoutSeconds :: int
  retriesFlag :: int
  outputFormat :: string

text \<open>
  The state of the process at start-up: the lines printed, the exit code once
  \<open>os.Exit\<close> has been called, and the variable \<open>checker\<close> (nil at first).
\<close>

record process =
  printed :: "string list"
  exit_code :: "int option"
  checker :: "URLChecker option"

definition start :: process where
  "start = \<lparr>printed = [], exit_code = None, checker = None\<rparr>"

definition Println :: "string \<Rightarrow> process \<Rightarrow> process" where
  "Println line p = p\<lparr>printed := printed p @ [line]\<rparr>"

definition Exit :: "int \<Rightarrow> process \<Rightarrow> process" where
  "Exit code p = p\<lparr>exit_code := Some code\<rparr>"

text \<open>The two hooks of a \<open>cobra.Command\<close> that \<open>main\<close> sets.\<close>

record command =
  PersistentPreRun :: "(process \<Rightarrow> process) option"
  PersistentPreRunE :: "(process \<Rightarrow> process) option"

definition apostrophe :: string where
  "apostrophe = [CHR 0x27]"

text \<open>The function literal given as \<open>PersistentPreRun\<close> of \<open>rootCmd\<close>.\<close>

definition check_flags :: "flags \<Rightarrow> process \<Rightarrow> process" where
  "check_flags fl p =
     (if timeoutSeconds fl \<le> 0 then Exit 1 (Println ''Error: timeout must be positive'' p)
      else if retriesFlag fl < 0 then Exit 1 (Println ''Error: retries cannot be negative'' p)
      else if outputFormat fl \<noteq> ''csv'' \<and> outputFormat fl \<noteq> ''json''
        then Exit 1 (Println (''Error: output format must be '' @ apostrophe @ ''csv''
                                @ apostrophe @ '' or '' @ apostrophe @ ''json'' @ apostrophe) p)
      else p)"

text \<open>The function assigned to \<open>rootCmd.PersistentPreRunE\<close>; it returns nil.\<close>

definition init_checker :: "flags \<Rightarrow> process \<Rightarrow> process" where
  "init_checker fl p =
     p\<lparr>checker := Some (NewURLChecker (wrap64 (wrap64 (timeoutSeconds fl) * Second))
                          (retriesFlag fl))\<rparr>"

text \<open>
  What \<open>Execute\<close> of the cobra library does with the persistent hooks of the root
  command before the \<open>Run\<close> of a subcommand: \<open>PersistentPreRunE\<close> when it is set,
  otherwise \<open>PersistentPreRun\<close> when that is set; never both. Neither subcommand of the
  program has a persistent hook of its own.
\<close>

definition run_persistent_hooks :: "command \<Rightarrow> process \<Rightarrow> process" where
  "run_persistent_hooks cmd p =
     (case PersistentPreRunE cmd of
        Some hook \<Rightarrow> hook p
      | None \<Rightarrow> (case PersistentPreRun cmd of Some hook \<Rightarrow> hook p | None \<Rightarrow> p))"

text \<open>
  \<open>main\<close> up to the moment the \<open>Run\<close> of the chosen subcommand starts, which is where
  the checking of URLs begins: the process has exited by then, or it goes on with the
  checker it holds.
\<close>

definition main :: "flags \<Rightarrow> process" where
  "main fl =
     (let rootCmd = \<lparr>PersistentPreRun = Some (check_flags fl), PersistentPreRunE = None\<rparr>;
          rootCmd = rootCmd\<lparr>PersistentPreRunE := Some (init_checker fl)\<rparr>
      in run_persistent_hooks rootCmd start)"

subsection \<open>Notions of the specification\<close>

text \<open>An attempt is a call of \<open>Get\<close>, failed or not.\<close>

fun is_attempt :: "event \<Rightarrow> bool" where
  "is_attempt (GetFailed e) = True"
| "is_attempt (GotResponse st) = True"
| "is_attempt _ = False"

fun is_sleep :: "event \<Rightarrow> bool" where
  "is_sleep (Slept d) = True"
| "is_sleep _ = False"

text \<open>
  The linear backoff in the specification's words: \<open>m\<close> failed attempts, the attempt with
  index \<open>j\<close> followed by a sleep of \<open>(j + 1) * 500ms\<close>.
\<close>

definition failed_with_backoff :: "(nat \<Rightarrow> string) \<Rightarrow> nat \<Rightarrow> event list" where
  "failed_with_backoff err m =
     concat (map (\<lambda>j. [GetFailed (err j), Slept ((int j + 1) * 500 * Millisecond)]) [0..<m])"

text \<open>
  A case-insensitive substring in the specification's words: at some offset of the body
  stands a text as long as the keyword that equals it up to the case of the ASCII
  letters.
\<close>

definition equal_ignoring_case :: "string \<Rightarrow> string \<Rightarrow> bool" where
  "equal_ignoring_case a b = list_all2 (\<lambda>x y. lower_byte x = lower_byte y) a b"

definition occurs_ignoring_case :: "string \<Rightarrow> string \<Rightarrow> bool" where
  "occurs_ignoring_case keyword body =
     (\<exists>i \<in> {0..length body}. equal_ignoring_case (take (length keyword) (drop i body)) keyword)"

text \<open>
  What \<open>url.Parse\<close> returns for the URLs of the examples: the scheme before \<open>://\<close> and
  the host after it.
\<close>

definition parse_examples :: url_parser where
  "parse_examples s =
     (if s = ''http://a'' then Inr \<lparr>Scheme = ''http'', Host = ''a''\<rparr>
      else if s = ''http://b'' then Inr \<lparr>Scheme = ''http'', Host = ''b''\<rparr>
      else if s = ''https://example.com'' then Inr \<lparr>Scheme = ''https'', Host = ''example.com''\<rparr>
      else if s = ''ftp://host'' then Inr \<lparr>Scheme = ''ftp'', Host = ''host''\<rparr>
      else if s = ''http://'' then Inr \<lparr>Scheme = ''http'', Host = []\<rparr>
      else Inl ''not an example'')"

subsection \<open>Auxiliary notions of the proofs\<close>

fun is_response :: "get_outcome option \<Rightarrow> bool" where
  "is_response (Some (Response st b)) = True"
| "is_response _ = False"

text \<open>
  The trace of the failed attempts \<open>k, ..., m - 1\<close>, none of them the last one allowed,
  with the sleeps as the code computes them.
\<close>

definition retry_trace :: "(nat \<Rightarrow> string) \<Rightarrow> nat \<Rightarrow> nat \<Rightarrow> event list" where
  "retry_trace err k m =
     concat (map (\<lambda>j. [GetFailed (err j), Slept (backoff (int j))]) [k..<m])"

text \<open>The error text of a failed call of \<open>Get\<close>.\<close>

fun err_of :: "get_outcome \<Rightarrow> string" where
  "err_of (TransportError e) = e"
| "err_of (Response st body) = []"

fun is_failure :: "get_outcome \<Rightarrow> bool" where
  "is_failure (TransportError e) = True"
| "is_failure (Response st body) = False"

section \<open>Properties\<close>

subsection \<open>Arithmetic within the 64-bit range\<close>

lemma wrap64_id: "is_int64 i \<Longrightarrow> wrap64 i = i"
  unfolding wrap64_def is_int64_def by simp

lemma wrap64_succ: "0 \<le> a \<Longrightarrow> a < 2 ^ 63 - 1 \<Longrightarrow> wrap64 (a + 1) = a + 1"
  by (rule wrap64_id) (simp add: is_int64_def)

lemma backoff_linear:
  assumes "0 \<le> a" "a < 18446744073"
  shows "backoff a = (a + 1) * 500 * Millisecond"
proof -
  have 1: "wrap64 (a + 1) = a + 1"
    using assms by (intro wrap64_id) (simp add: is_int64_def)
  have 2: "wrap64 ((a + 1) * 500) = (a + 1) * 500"
    using assms by (intro wrap64_id) (simp add: is_int64_def)
  have 3: "wrap64 ((a + 1) * 500 * Millisecond) = (a + 1) * 500 * Millisecond"
    using assms by (intro wrap64_id) (simp add: is_int64_def Millisecond_def)
  show ?thesis unfolding backoff_def by (simp only: 1 2 3)
qed

lemma fmt_d_3: "fmt_d 3 = ''3''"
  by (simp add: fmt_d_def digits.simps digit_char_def)

subsection \<open>The retry loop\<close>

lemma retry_trace_step:
  "k < m \<Longrightarrow>
   retry_trace err k m = GetFailed (err k) # Slept (backoff (int k)) # retry_trace err (Suc k) m"
  by (simp add: retry_trace_def upt_conv_Cons)

lemma attempts_retry_trace:
  "filter is_attempt (retry_trace err k m) = map (\<lambda>j. GetFailed (err j)) [k..<m]"
  by (induction m) (simp_all add: retry_trace_def)

lemma no_response_retry_trace: "GotResponse st \<notin> set (retry_trace err k m)"
  by (auto simp: retry_trace_def)

lemma retry_trace_linear:
  "int m \<le> 18446744073 \<Longrightarrow> retry_trace err 0 m = failed_with_backoff err m"
  unfolding retry_trace_def failed_with_backoff_def
  by (intro arg_cong[where f = concat] map_cong refl) (simp add: backoff_linear)

lemma retry_trace_cong:
  "(\<And>j. k \<le> j \<Longrightarrow> j < m \<Longrightarrow> err j = err' j) \<Longrightarrow> retry_trace err k m = retry_trace err' k m"
  unfolding retry_trace_def
  by (intro arg_cong[where f = concat] map_cong refl) simp

text \<open>The loop stops at the first response, if the attempt that gets it is allowed.\<close>

lemma loop_until_response:
  assumes "int m \<le> n" "n < 2 ^ 63" "g m = Response st body"
  shows "k \<le> m \<Longrightarrow> (\<forall>j. k \<le> j \<and> j < m \<longrightarrow> g j = TransportError (err j)) \<Longrightarrow>
         attempt_loop g n (int k) k prev tr =
           Some (Some (Response st body), tr @ retry_trace err k m @ [GotResponse st])"
proof (induction "m - k" arbitrary: k prev tr)
  case 0
  then have "k = m" by simp
  then show ?case using assms
    by (subst attempt_loop.simps) (simp add: retry_trace_def)
next
  case (Suc d)
  then have km: "k < m" by simp
  then have gk: "g k = TransportError (err k)" using Suc.prems by simp
  have w: "wrap64 (int k + 1) = int (Suc k)"
    using km assms by (subst wrap64_succ) auto
  have IH: "attempt_loop g n (int (Suc k)) (Suc k) p t =
           Some (Some (Response st body), t @ retry_trace err (Suc k) m @ [GotResponse st])" for p t
    using Suc.hyps(1)[of "Suc k"] Suc.hyps(2) Suc.prems km by auto
  show ?case
    using km assms(1)
    by (subst attempt_loop.simps) (simp add: gk w IH retry_trace_step del: of_nat_Suc)
qed

text \<open>When every attempt fails, the loop makes all \<open>N + 1\<close> of them and ends.\<close>

lemma loop_all_failed:
  assumes "int N < 2 ^ 63 - 1"
  shows "k \<le> N \<Longrightarrow> (\<forall>j. k \<le> j \<and> j \<le> N \<longrightarrow> g j = TransportError (err j)) \<Longrightarrow>
         attempt_loop g (int N) (int k) k prev tr =
           Some (Some (TransportError (err N)),
                 tr @ retry_trace err k N @ [GetFailed (err N)])"
proof (induction "N - k" arbitrary: k prev tr)
  case 0
  then have kn: "k = N" by simp
  have gk: "g N = TransportError (err N)" using 0 by simp
  have w: "wrap64 (int N + 1) = int N + 1" using assms by (intro wrap64_succ) auto
  have stop: "attempt_loop g (int N) (int N + 1) (Suc N) p t = Some (p, t)" for p t
    by (subst attempt_loop.simps) simp
  show ?case unfolding kn
    by (subst attempt_loop.simps) (simp add: gk w stop retry_trace_def del: of_nat_Suc)
next
  case (Suc d)
  then have km: "k < N" by simp
  then have gk: "g k = TransportError (err k)" using Suc.prems by simp
  have w: "wrap64 (int k + 1) = int (Suc k)"
    using km assms by (subst wrap64_succ) auto
  have IH: "attempt_loop g (int N) (int (Suc k)) (Suc k) p t =
           Some (Some (TransportError (err N)),
                 t @ retry_trace err (Suc k) N @ [GetFailed (err N)])" for p t
    using Suc.hyps(1)[of "Suc k"] Suc.hyps(2) Suc.prems km by auto
  show ?case
    using km
    by (subst attempt_loop.simps) (simp add: gk w IH retry_trace_step del: of_nat_Suc)
qed

text \<open>
  Whatever the bound and the network: if the loop ends, it has only added attempts and
  sleeps to the trace, and it holds a response exactly when the trace shows one.
\<close>

lemma loop_partial:
  assumes "attempt_loop g n a k prev tr = Some y"
  shows "\<not> is_response prev \<longrightarrow>
         (\<exists>ext. snd y = tr @ ext \<and> (\<forall>ev \<in> set ext. is_attempt ev \<or> is_sleep ev) \<and>
            (case fst y of
               Some (Response st b) \<Rightarrow> (\<exists>j. g j = Response st b) \<and> GotResponse st \<in> set ext
             | _ \<Rightarrow> (\<forall>st. GotResponse st \<notin> set ext)))"
proof (rule attempt_loop.raw_induct[OF _ assms], goal_cases)
  case (1 f g n a k prev tr y)
  show ?case
  proof (cases "a \<le> n")
    case False
    with 1(2) have y: "y = (prev, tr)" by simp
    show ?thesis
      by (cases prev rule: is_response.cases) (auto simp: y)
  next
    case True
    show ?thesis
    proof (cases "g k")
      case (Response st b)
      with True 1(2) have y: "y = (Some (Response st b), tr @ [GotResponse st])" by auto
      show ?thesis using Response by (auto simp: y)
    next
      case (TransportError e)
      with True 1(2) have rec: "f g n (wrap64 (a + 1)) (Suc k) (Some (TransportError e))
               (tr @ GetFailed e # (if a < n then [Slept (backoff a)] else [])) = Some y"
        by simp
      from 1(1)[OF rec] obtain ext where
        e1: "snd y = (tr @ GetFailed e # (if a < n then [Slept (backoff a)] else [])) @ ext" and
        e2: "\<forall>ev \<in> set ext. is_attempt ev \<or> is_sleep ev" and
        e3: "(case fst y of
               Some (Response st b) \<Rightarrow> (\<exists>j. g j = Response st b) \<and> GotResponse st \<in> set ext
             | _ \<Rightarrow> (\<forall>st. GotResponse st \<notin> set ext))"
        by auto
      let ?ext = "GetFailed e # (if a < n then [Slept (backoff a)] else []) @ ext"
      have "snd y = tr @ ?ext" using e1 by simp
      moreover have "\<forall>ev \<in> set ?ext. is_attempt ev \<or> is_sleep ev" using e2 by auto
      moreover have "(case fst y of
               Some (Response st b) \<Rightarrow> (\<exists>j. g j = Response st b) \<and> GotResponse st \<in> set ?ext
             | _ \<Rightarrow> (\<forall>st. GotResponse st \<notin> set ?ext))"
        using e3 by (auto split: option.splits get_outcome.splits)
      ultimately show ?thesis by blast
    qed
  qed
qed

subsection \<open>checkURL\<close>

lemma checkURL_valid:
  "validateURL parse rawURL = Inr () \<Longrightarrow>
   checkURL parse U c env rawURL keyword =
     map_option (after_loop U c env keyword (new_result rawURL))
       (attempt_loop (get env) (retries c) 0 0 None [])"
  by (simp add: checkURL_def)

text \<open>
  Claim C4. Let the URL be valid and the retry count \<open>retries c\<close> be at least 0 (and
  below the largest \<open>int\<close>, so that \<open>retries + 1\<close> exists). If every call of \<open>Get\<close>
  fails at the transport level, \<open>err k\<close> being the error text of call \<open>k\<close>, then
  \<open>checkURL\<close> returns a result after exactly \<open>retries + 1\<close> attempts, none of which got
  a response; the error of the result is \<open>failed after <retries + 1> retries: \<close>
  followed by the error text of the last attempt, and the status code is 0.
\<close>

theorem checkURL_all_attempts_fail:
  assumes "validateURL parse rawURL = Inr ()"
    and "0 \<le> retries c" and "retries c < 2 ^ 63 - 1"
    and "\<forall>k. int k \<le> retries c \<longrightarrow> get env k = TransportError (err k)"
  shows "\<exists>r tr. checkURL parse U c env rawURL keyword = Some (Return r, tr)
           \<and> length (filter is_attempt tr) = nat (retries c) + 1
           \<and> (\<forall>st. GotResponse st \<notin> set tr)
           \<and> Error r = ''failed after '' @ fmt_d (retries c + 1) @ '' retries: ''
                          @ err (nat (retries c))
           \<and> StatusCode r = 0"
proof -
  define N where "N = nat (retries c)"
  have n: "retries c = int N" using assms(2) by (simp add: N_def)
  have "int N < 2 ^ 63 - 1" using assms(3) n by simp
  moreover have "\<forall>j. 0 \<le> j \<and> j \<le> N \<longrightarrow> get env j = TransportError (err j)"
    using assms(4) n by simp
  ultimately have loop: "attempt_loop (get env) (int N) (int 0) 0 None [] =
      Some (Some (TransportError (err N)), [] @ retry_trace err 0 N @ [GetFailed (err N)])"
    by (intro loop_all_failed) auto
  have w: "wrap64 (int N + 1) = int N + 1"
    using assms(3) n by (intro wrap64_succ) auto
  show ?thesis
    using loop
    by (simp add: checkURL_valid[OF assms(1)] n after_loop_def w attempts_retry_trace
          no_response_retry_trace new_result_def del: of_nat_Suc)
qed

text \<open>With 2 retries and a transport that always times out: 3 attempts, and the
  message says 3.\<close>

theorem checkURL_all_attempts_fail_witness:
  "\<exists>r tr. checkURL parse_examples id \<lparr>client_timeout = 10 * Second, retries = 2\<rparr>
            \<lparr>get = (\<lambda>k. TransportError ''timeout''), since_start = 0\<rparr> ''http://a'' []
            = Some (Return r, tr)
       \<and> length (filter is_attempt tr) = 3
       \<and> Error r = ''failed after 3 retries: timeout''
       \<and> StatusCode r = 0"
proof -
  have "\<exists>r tr. checkURL parse_examples id \<lparr>client_timeout = 10 * Second, retries = 2\<rparr>
            \<lparr>get = (\<lambda>k. TransportError ''timeout''), since_start = 0\<rparr> ''http://a'' []
            = Some (Return r, tr)
       \<and> length (filter is_attempt tr) = 3
       \<and> (\<forall>st. GotResponse st \<notin> set tr)
       \<and> Error r = ''failed after 3 retries: timeout''
       \<and> StatusCode r = 0"
    using checkURL_all_attempts_fail [of parse_examples "''http://a''"
      "\<lparr>client_timeout = 10 * Second, retries = 2\<rparr>"
      "\<lparr>get = (\<lambda>k. TransportError ''timeout''), since_start = 0\<rparr>"
      "\<lambda>k. ''timeout''" id "[]"]
    by (simp add: validateURL_def parse_examples_def fmt_d_3)
  then show ?thesis by blast
qed

subsection \<open>Facts shared by the properties of checkURL\<close>

lemma no_sleep_after_loop:
  "after_loop U c env keyword result (x, tr) = (out, tr') \<Longrightarrow>
   \<exists>rest. tr' = tr @ rest \<and> (\<forall>ev \<in> set rest. \<not> is_sleep ev \<and> \<not> is_attempt ev)"
  by (auto simp: after_loop_def Let_def split: option.splits get_outcome.splits sum.splits if_splits)

lemma after_loop_returns:
  "x \<noteq> None \<Longrightarrow> \<exists>r tr'. after_loop U c env keyword result (x, tr) = (Return r, tr')"
  by (auto simp: after_loop_def Let_def split: option.splits get_outcome.splits sum.splits)


lemma checkURL_cases:
  assumes "checkURL parse U c env rawURL keyword = Some (out, tr)"
  shows "(\<exists>err. validateURL parse rawURL = Inl err \<and> tr = []
            \<and> out = Return ((new_result rawURL)\<lparr>Error := error_text err\<rparr>))
       \<or> (validateURL parse rawURL = Inr () \<and>
            (\<exists>x ltr. attempt_loop (get env) (retries c) 0 0 None [] = Some (x, ltr)
               \<and> after_loop U c env keyword (new_result rawURL) (x, ltr) = (out, tr)))"
  using assms
  by (cases "validateURL parse rawURL") (auto simp: checkURL_def)

lemma loop_from_start:
  assumes "attempt_loop g n 0 0 None [] = Some (x, ltr)"
  shows "(\<forall>ev \<in> set ltr. is_attempt ev \<or> is_sleep ev) \<and>
         (case x of
            Some (Response st b) \<Rightarrow> (\<exists>j. g j = Response st b) \<and> GotResponse st \<in> set ltr
          | _ \<Rightarrow> (\<forall>st. GotResponse st \<notin> set ltr))"
  using loop_partial[OF assms] by simp

subsection \<open>Substrings\<close>

lemma HasPrefix_iff: "HasPrefix s p \<longleftrightarrow> (\<exists>suf. s = p @ suf)"
  by (induction s p rule: HasPrefix.induct) auto

lemma Contains_iff: "Contains s sub \<longleftrightarrow> (\<exists>pre suf. s = pre @ sub @ suf)"
proof (induction s)
  case Nil
  then show ?case by auto
next
  case (Cons c s)
  show ?case
  proof
    assume "Contains (c # s) sub"
    then consider "HasPrefix (c # s) sub" | "Contains s sub" by auto
    then show "\<exists>pre suf. c # s = pre @ sub @ suf"
    proof cases
      case 1
      then obtain suf where "c # s = sub @ suf" by (auto simp: HasPrefix_iff)
      then have "c # s = [] @ sub @ suf" by simp
      then show ?thesis by blast
    next
      case 2
      then obtain pre suf where "s = pre @ sub @ suf" using Cons.IH by blast
      then have "c # s = (c # pre) @ sub @ suf" by simp
      then show ?thesis by blast
    qed
  next
    assume "\<exists>pre suf. c # s = pre @ sub @ suf"
    then obtain pre suf where eq: "c # s = pre @ sub @ suf" by blast
    show "Contains (c # s) sub"
    proof (cases pre)
      case Nil
      with eq have "HasPrefix (c # s) sub" by (auto simp: HasPrefix_iff)
      then show ?thesis by simp
    next
      case (Cons p pre')
      with eq have "s = pre' @ sub @ suf" by simp
      then have "Contains s sub" using Cons.IH by blast
      then show ?thesis by simp
    qed
  qed
qed

lemma list_all2_map_eq: "list_all2 (\<lambda>x y. f x = f y) xs ys \<longleftrightarrow> map f xs = map f ys"
proof (induction xs arbitrary: ys)
  case Nil
  then show ?case by auto
next
  case (Cons x xs)
  then show ?case by (cases ys) auto
qed

lemma infix_at_offset:
  "(\<exists>pre suf. map f body = pre @ map f kw @ suf) \<longleftrightarrow>
   (\<exists>i \<in> {0..length body}. map f (take (length kw) (drop i body)) = map f kw)"
proof
  assume "\<exists>pre suf. map f body = pre @ map f kw @ suf"
  then obtain pre suf where eq: "map f body = pre @ map f kw @ suf" by blast
  then have "length body = length pre + length kw + length suf"
    by (metis length_append length_map add.assoc)
  then have le: "length pre \<le> length body" by simp
  have "map f (take (length kw) (drop (length pre) body)) =
        take (length kw) (drop (length pre) (map f body))"
    by (simp add: take_map drop_map)
  also have "\<dots> = map f kw" by (simp add: eq)
  finally show "\<exists>i \<in> {0..length body}. map f (take (length kw) (drop i body)) = map f kw"
    using le by auto
next
  assume "\<exists>i \<in> {0..length body}. map f (take (length kw) (drop i body)) = map f kw"
  then obtain i where i: "map f (take (length kw) (drop i body)) = map f kw" by blast
  have "body = take i body @ take (length kw) (drop i body) @ drop (length kw) (drop i body)"
    by (metis append_take_drop_id)
  then have "map f body = map f (take i body) @ map f (take (length kw) (drop i body))
               @ map f (drop (length kw) (drop i body))"
    by (metis map_append)
  then show "\<exists>pre suf. map f body = pre @ map f kw @ suf"
    using i by metis
qed

lemma Contains_lower_ascii:
  "Contains (map lower_byte body) (map lower_byte keyword) \<longleftrightarrow>
   occurs_ignoring_case keyword body"
  unfolding Contains_iff occurs_ignoring_case_def equal_ignoring_case_def list_all2_map_eq
  by (rule infix_at_offset)

lemma checkURL_first_response:
  assumes "validateURL parse rawURL = Inr ()" "int m \<le> retries c" "retries c < 2 ^ 63"
    and "\<forall>j < m. get env j = TransportError (err j)" "get env m = Response st body"
  shows "checkURL parse U c env rawURL keyword =
           Some (after_loop U c env keyword (new_result rawURL)
                   (Some (Response st body), retry_trace err 0 m @ [GotResponse st]))"
proof -
  have "attempt_loop (get env) (retries c) (int 0) 0 None [] =
            Some (Some (Response st body), [] @ retry_trace err 0 m @ [GotResponse st])"
    using assms by (intro loop_until_response) auto
  then show ?thesis by (simp add: checkURL_valid[OF assms(1)])
qed

subsection \<open>Runs on concrete inputs\<close>

lemma hello_occurs: "occurs_ignoring_case ''HeLLo'' ''Hello World''"
  by code_simp

lemma xyz_absent: "\<not> occurs_ignoring_case ''xyz'' ''Hello World''"
  unfolding Contains_lower_ascii[symmetric] by code_simp

lemma ascii_examples: "is_ascii ''Hello World''" "is_ascii ''HeLLo''" "is_ascii ''xyz''"
  by code_simp+

lemma valid_example: "validateURL parse_examples ''http://a'' = Inr ()"
  by (simp add: validateURL_def parse_examples_def)

lemma backoff_two:
  "failed_with_backoff (\<lambda>j. ''timeout'') 2 =
     [GetFailed ''timeout'', Slept 500000000, GetFailed ''timeout'', Slept 1000000000]"
  by code_simp


lemma run_keyword_found:
  "checkURL parse_examples id \<lparr>client_timeout = 10 * Second, retries = 0\<rparr>
     \<lparr>get = (\<lambda>k. Response 200 (Inr ''hello'')), since_start = 7\<rparr> ''http://a'' ''hello''
   = Some (Return \<lparr>URL = ''http://a'', StatusCode = 200, ResponseTime = 7, KeywordFound = True,
                    Error = []\<rparr>,
           [GotResponse 200, ReadBody, ClosedBody])"
  by (subst checkURL_first_response[where m = 0 and st = 200 and body = "Inr ''hello''", OF valid_example])
     (simp_all add: after_loop_def new_result_def retry_trace_def ToLower_def is_ascii_def lower_byte_def)

subsection \<open>Backoff, keyword search and the invariants of a result\<close>

text \<open>
  Claim C5. Let the URL be valid and \<open>0 \<le> retries \<le> 18446744073\<close> (beyond that the
  product \<open>(attempt + 1) * 500ms\<close> leaves the range of \<open>time.Duration\<close>). Let the attempts
  \<open>0, ..., m - 1\<close> fail, and let attempt \<open>m\<close> be the final one: the last one allowed, or
  one that gets a response. Then the trace of \<open>checkURL\<close> is: each failed attempt \<open>j < m\<close>
  followed by a sleep of \<open>(j + 1) * 500ms\<close>, then the final attempt, then no sleep at
  all. With \<open>retries = 0\<close> the whole trace has no sleep.
\<close>

theorem checkURL_linear_backoff:
  assumes "validateURL parse rawURL = Inr ()"
    and "0 \<le> retries c" and "retries c \<le> 18446744073"
    and "m \<le> nat (retries c)"
    and "\<forall>j < m. get env j = TransportError (err j)"
    and "m = nat (retries c) \<or> (\<exists>st body. get env m = Response st body)"
  shows "\<exists>r tr final rest. checkURL parse U c env rawURL keyword = Some (Return r, tr)
           \<and> tr = failed_with_backoff err m @ final # rest
           \<and> is_attempt final
           \<and> (\<forall>ev \<in> set (final # rest). \<not> is_sleep ev)
           \<and> (retries c = 0 \<longrightarrow> (\<forall>ev \<in> set tr. \<not> is_sleep ev))"
proof -
  have lin: "retry_trace err 0 m = failed_with_backoff err m"
    using assms(3,4) by (intro retry_trace_linear) linarith
  have "\<exists>x final. attempt_loop (get env) (retries c) 0 0 None [] =
          Some (Some x, failed_with_backoff err m @ [final]) \<and> is_attempt final"
  proof (cases "get env m")
    case (Response st body)
    have "attempt_loop (get env) (retries c) (int 0) 0 None [] =
            Some (Some (Response st body), [] @ retry_trace err 0 m @ [GotResponse st])"
      using assms(2,3,4,5) Response by (intro loop_until_response) auto
    then show ?thesis by (simp add: lin)
  next
    case (TransportError e)
    with assms(6) have m: "m = nat (retries c)" by auto
    then have n: "retries c = int m" using assms(2) by simp
    let ?err = "err(m := e)"
    have "attempt_loop (get env) (int m) (int 0) 0 None [] =
            Some (Some (TransportError (?err m)), [] @ retry_trace ?err 0 m @ [GetFailed (?err m)])"
      using assms(3,5) TransportError n by (intro loop_all_failed) auto
    moreover have "retry_trace ?err 0 m = retry_trace err 0 m"
      by (rule retry_trace_cong) simp
    ultimately show ?thesis by (simp add: lin n)
  qed
  then obtain x final where
    loop: "attempt_loop (get env) (retries c) 0 0 None [] =
             Some (Some x, failed_with_backoff err m @ [final])" and
    final: "is_attempt final"
    by blast
  obtain r tr where
    al: "after_loop U c env keyword (new_result rawURL)
           (Some x, failed_with_backoff err m @ [final]) = (Return r, tr)"
    using after_loop_returns[of "Some x"] by blast
  from no_sleep_after_loop[OF al] obtain rest where
    tr: "tr = (failed_with_backoff err m @ [final]) @ rest" and
    rest: "\<forall>ev \<in> set rest. \<not> is_sleep ev \<and> \<not> is_attempt ev"
    by blast
  have fin: "\<not> is_sleep final" using final by (cases final) auto
  have zero: "retries c = 0 \<longrightarrow> failed_with_backoff err m = []"
    using assms(4) by (auto simp: failed_with_backoff_def)
  have "checkURL parse U c env rawURL keyword = Some (Return r, tr)"
    by (simp add: checkURL_valid[OF assms(1)] loop al)
  moreover have "tr = failed_with_backoff err m @ final # rest" using tr by simp
  moreover have "\<forall>ev \<in> set (final # rest). \<not> is_sleep ev" using fin rest by simp
  moreover have "retries c = 0 \<longrightarrow> (\<forall>ev \<in> set tr. \<not> is_sleep ev)"
    using zero tr fin rest by auto
  ultimately show ?thesis using final by blast
qed

text \<open>With 2 retries and a transport that always fails the sleeps are 500ms and 1000ms,
  and none follows the third attempt; with 0 retries there is no sleep.\<close>

theorem checkURL_linear_backoff_witness:
  "(\<exists>r final rest.
      checkURL parse_examples id \<lparr>client_timeout = 10 * Second, retries = 2\<rparr>
        \<lparr>get = (\<lambda>k. TransportError ''timeout''), since_start = 0\<rparr> ''http://a'' []
      = Some (Return r, [GetFailed ''timeout'', Slept 500000000,
                         GetFailed ''timeout'', Slept 1000000000] @ final # rest)
      \<and> is_attempt final \<and> \<not> (\<exists>ev \<in> set (final # rest). is_sleep ev))
   \<and> (\<exists>r tr.
      checkURL parse_examples id \<lparr>client_timeout = 10 * Second, retries = 0\<rparr>
        \<lparr>get = (\<lambda>k. TransportError ''timeout''), since_start = 0\<rparr> ''http://a'' []
      = Some (Return r, tr)
      \<and> \<not> (\<exists>ev \<in> set tr. is_sleep ev))"
proof
  show "\<exists>r final rest.
      checkURL parse_examples id \<lparr>client_timeout = 10 * Second, retries = 2\<rparr>
        \<lparr>get = (\<lambda>k. TransportError ''timeout''), since_start = 0\<rparr> ''http://a'' []
      = Some (Return r, [GetFailed ''timeout'', Slept 500000000,
                         GetFailed ''timeout'', Slept 1000000000] @ final # rest)
      \<and> is_attempt final \<and> \<not> (\<exists>ev \<in> set (final # rest). is_sleep ev)"
    using checkURL_linear_backoff [where parse = parse_examples and rawURL = "''http://a''"
      and c = "\<lparr>client_timeout = 10 * Second, retries = 2\<rparr>" and m = 2
      and env = "\<lparr>get = (\<lambda>k. TransportError ''timeout''), since_start = 0\<rparr>"
      and err = "\<lambda>j. ''timeout''" and U = id and keyword = "[]", OF valid_example]
    unfolding backoff_two by simp blast
  show "\<exists>r tr.
      checkURL parse_examples id \<lparr>client_timeout = 10 * Second, retries = 0\<rparr>
        \<lparr>get = (\<lambda>k. TransportError ''timeout''), since_start = 0\<rparr> ''http://a'' []
      = Some (Return r, tr)
      \<and> \<not> (\<exists>ev \<in> set tr. is_sleep ev)"
    using checkURL_linear_backoff [where parse = parse_examples and rawURL = "''http://a''"
      and c = "\<lparr>client_timeout = 10 * Second, retries = 0\<rparr>" and m = 0
      and env = "\<lparr>get = (\<lambda>k. TransportError ''timeout''), since_start = 0\<rparr>"
      and err = "\<lambda>j. ''timeout''" and U = id and keyword = "[]", OF valid_example]
    by simp blast
qed

text \<open>
  Claim C6. Let the URL be valid, the keyword be non-empty, the attempts before \<open>m\<close>
  fail and attempt \<open>m \<le> retries\<close> get a response whose body \<open>body\<close> is read without
  error. Then \<open>checkURL\<close> returns a result with an empty error, whatever the search
  finds, and \<open>KeywordFound\<close> holds exactly when the lowered keyword stands somewhere in the
  lowered body. When body and keyword are ASCII this is: the keyword occurs in the body
  at some offset, up to the case of the letters.
\<close>

theorem checkURL_keyword_search:
  assumes "validateURL parse rawURL = Inr ()"
    and "keyword \<noteq> []"
    and "int m \<le> retries c" and "retries c < 2 ^ 63"
    and "\<forall>j < m. get env j = TransportError (err j)"
    and "get env m = Response st (Inr body)"
  shows "\<exists>r tr. checkURL parse U c env rawURL keyword = Some (Return r, tr)
           \<and> Error r = []
           \<and> (KeywordFound r \<longleftrightarrow> (\<exists>pre suf. ToLower U body = pre @ ToLower U keyword @ suf))
           \<and> (is_ascii body \<and> is_ascii keyword \<longrightarrow>
                (KeywordFound r \<longleftrightarrow> occurs_ignoring_case keyword body))"
  using assms(2)
  by (simp add: checkURL_first_response[OF assms(1,3,4,5,6)] after_loop_def new_result_def
        Contains_iff[symmetric] ToLower_def Contains_lower_ascii)

text \<open>The body \<open>Hello World\<close> holds the keyword \<open>HeLLo\<close> and not \<open>xyz\<close>; in both
  cases the error stays empty.\<close>

theorem checkURL_keyword_search_witness:
  "(\<exists>r tr.
      checkURL parse_examples id \<lparr>client_timeout = 10 * Second, retries = 0\<rparr>
        \<lparr>get = (\<lambda>k. Response 200 (Inr ''Hello World'')), since_start = 7\<rparr> ''http://a'' ''HeLLo''
      = Some (Return r, tr) \<and> KeywordFound r \<and> Error r = [])
   \<and> (\<exists>r tr.
      checkURL parse_examples id \<lparr>client_timeout = 10 * Second, retries = 0\<rparr>
        \<lparr>get = (\<lambda>k. Response 200 (Inr ''Hello World'')), since_start = 7\<rparr> ''http://a'' ''xyz''
      = Some (Return r, tr) \<and> \<not> KeywordFound r \<and> Error r = [])"
proof
  show "\<exists>r tr.
      checkURL parse_examples id \<lparr>client_timeout = 10 * Second, retries = 0\<rparr>
        \<lparr>get = (\<lambda>k. Response 200 (Inr ''Hello World'')), since_start = 7\<rparr> ''http://a'' ''HeLLo''
      = Some (Return r, tr) \<and> KeywordFound r \<and> Error r = []"
    using checkURL_keyword_search [where parse = parse_examples and rawURL = "''http://a''"
      and c = "\<lparr>client_timeout = 10 * Second, retries = 0\<rparr>" and m = 0
      and env = "\<lparr>get = (\<lambda>k. Response 200 (Inr ''Hello World'')), since_start = 7\<rparr>"
      and U = id and keyword = "''HeLLo''" and st = 200 and body = "''Hello World''",
      OF valid_example]
    by (simp add: ascii_examples hello_occurs) blast
  show "\<exists>r tr.
      checkURL parse_examples id \<lparr>client_timeout = 10 * Second, retries = 0\<rparr>
        \<lparr>get = (\<lambda>k. Response 200 (Inr ''Hello World'')), since_start = 7\<rparr> ''http://a'' ''xyz''
      = Some (Return r, tr) \<and> \<not> KeywordFound r \<and> Error r = []"
    using checkURL_keyword_search [where parse = parse_examples and rawURL = "''http://a''"
      and c = "\<lparr>client_timeout = 10 * Second, retries = 0\<rparr>" and m = 0
      and env = "\<lparr>get = (\<lambda>k. Response 200 (Inr ''Hello World'')), since_start = 7\<rparr>"
      and U = id and keyword = "''xyz''" and st = 200 and body = "''Hello World''",
      OF valid_example]
    by (simp add: ascii_examples xyz_absent) blast
qed




text \<open>
  Claim C8. For every result that \<open>checkURL\<close> returns, \<open>KeywordFound\<close> holds only if the
  keyword is non-empty and the body of a response was read without error; it is false
  when the keyword is empty, when validation failed, when no attempt got a response and
  when reading the body failed.
\<close>

theorem checkURL_keywordFound_only_if:
  assumes "checkURL parse U c env rawURL keyword = Some (Return r, tr)"
  shows "(KeywordFound r \<longrightarrow>
            keyword \<noteq> [] \<and> ReadBody \<in> set tr
            \<and> (\<exists>k st text. get env k = Response st (Inr text)))
       \<and> (keyword = [] \<longrightarrow> \<not> KeywordFound r)
       \<and> (validateURL parse rawURL \<noteq> Inr () \<longrightarrow> \<not> KeywordFound r)
       \<and> ((\<forall>st. GotResponse st \<notin> set tr) \<longrightarrow> \<not> KeywordFound r)
       \<and> ((\<exists>e. ReadFailed e \<in> set tr) \<longrightarrow> \<not> KeywordFound r)"
proof -
  from checkURL_cases[OF assms(1)] show ?thesis
  proof (elim disjE exE conjE)
    fix err
    assume "tr = []" "Return r = Return ((new_result rawURL)\<lparr>Error := error_text err\<rparr>)"
    then show ?thesis by (simp add: new_result_def)
  next
    fix x ltr
    assume valid: "validateURL parse rawURL = Inr ()"
      and loop: "attempt_loop (get env) (retries c) 0 0 None [] = Some (x, ltr)"
      and al: "after_loop U c env keyword (new_result rawURL) (x, ltr) = (Return r, tr)"
    note inv = loop_from_start[OF loop]
    have noread: "ReadFailed e \<notin> set ltr" for e using inv by auto
    show ?thesis
    proof (cases x)
      case None
      with al show ?thesis by (simp add: after_loop_def)
    next
      case (Some o1)
      show ?thesis
      proof (cases o1)
        case (TransportError e)
        with Some al show ?thesis
          by (auto simp: after_loop_def new_result_def)
      next
        case (Response st body)
        with Some inv have got: "GotResponse st \<in> set ltr" and g: "\<exists>j. get env j = Response st body"
          by auto
        from Response Some al got g noread valid show ?thesis
          by (auto simp: after_loop_def new_result_def Let_def split: if_splits sum.splits)
      qed
    qed
  qed
qed

text \<open>A run in which the keyword is found: the keyword is non-empty and the body was
  read.\<close>

theorem checkURL_keywordFound_only_if_witness:
  "KeywordFound \<lparr>URL = ''http://a'', StatusCode = 200, ResponseTime = 7, KeywordFound = True,
                  Error = []\<rparr>
   \<and> ''hello'' \<noteq> [] \<and> ReadBody \<in> set [GotResponse 200, ReadBody, ClosedBody]"
  using checkURL_keywordFound_only_if [OF run_keyword_found]
  by simp

subsection \<open>validateURL\<close>

text \<open>
  Claim C3. \<open>validateURL\<close> applies its checks in the order of the source, on the fields
  \<open>Scheme\<close> and \<open>Host\<close> of what \<open>url.Parse\<close> returns: the empty string fails with
  \<open>EmptyURL\<close>; a parsed URL whose scheme is neither \<open>http\<close> nor \<open>https\<close> fails with
  \<open>UnsupportedScheme\<close>; one with such a scheme and an empty host fails with
  \<open>MissingHost\<close>; one with such a scheme and a non-empty host is accepted. The function
  has no access to the network (it takes no environment), and when it rejects a URL
  \<open>checkURL\<close> returns with an empty trace: no call of \<open>Get\<close> was made.
\<close>

theorem validateURL_cases:
  "validateURL parse [] = Inl EmptyURL
   \<and> (rawURL \<noteq> [] \<and> parse rawURL = Inr u \<and> Scheme u \<noteq> ''http'' \<and> Scheme u \<noteq> ''https''
        \<longrightarrow> validateURL parse rawURL = Inl UnsupportedScheme)
   \<and> (rawURL \<noteq> [] \<and> parse rawURL = Inr u \<and> (Scheme u = ''http'' \<or> Scheme u = ''https'')
        \<and> Host u = []
        \<longrightarrow> validateURL parse rawURL = Inl MissingHost)
   \<and> (rawURL \<noteq> [] \<and> parse rawURL = Inr u \<and> (Scheme u = ''http'' \<or> Scheme u = ''https'')
        \<and> Host u \<noteq> []
        \<longrightarrow> validateURL parse rawURL = Inr ())
   \<and> (validateURL parse rawURL \<noteq> Inr ()
        \<longrightarrow> (\<exists>r. checkURL parse U c env rawURL keyword = Some (Return r, [])))"
  by (auto simp: validateURL_def checkURL_def split: sum.splits)

text \<open>The examples of the specification: the empty string, \<open>ftp://host\<close>, \<open>http://\<close> and
  an accepted URL.\<close>

theorem validateURL_cases_witness:
  "validateURL parse_examples [] = Inl EmptyURL
   \<and> validateURL parse_examples ''ftp://host'' = Inl UnsupportedScheme
   \<and> validateURL parse_examples ''http://'' = Inl MissingHost
   \<and> validateURL parse_examples ''https://example.com'' = Inr ()"
  using validateURL_cases [of parse_examples "''ftp://host''" "\<lparr>Scheme = ''ftp'', Host = ''host''\<rparr>"]
    validateURL_cases [of parse_examples "''http://''" "\<lparr>Scheme = ''http'', Host = []\<rparr>"]
    validateURL_cases [of parse_examples "''https://example.com''"
       "\<lparr>Scheme = ''https'', Host = ''example.com''\<rparr>"]
  by (simp add: parse_examples_def)

subsection \<open>printResult\<close>

text \<open>
  Claim C9. What \<open>printResult\<close> adds to standard output: for a result with an error, the
  line \<open><url>: Error - <message>\<close> and nothing else; otherwise
  \<open><url>: Status=<code>, ResponseTime=<duration>\<close>, followed by \<open>, Keyword=Found\<close> when the
  keyword was found, by \<open>, Keyword=NotFound\<close> when it was not found and the status code is
  200, and by nothing in the remaining case; the line ends with a newline.
\<close>

theorem printResult_line:
  "(Error r \<noteq> [] \<longrightarrow>
      printResult D r out = out @ URL r @ '': Error - '' @ Error r @ newline)
   \<and> (Error r = [] \<and> KeywordFound r \<longrightarrow>
      printResult D r out = out @ URL r @ '': Status='' @ fmt_d (StatusCode r)
        @ '', ResponseTime='' @ D (ResponseTime r) @ '', Keyword=Found'' @ newline)
   \<and> (Error r = [] \<and> \<not> KeywordFound r \<and> StatusCode r = 200 \<longrightarrow>
      printResult D r out = out @ URL r @ '': Status='' @ fmt_d (StatusCode r)
        @ '', ResponseTime='' @ D (ResponseTime r) @ '', Keyword=NotFound'' @ newline)
   \<and> (Error r = [] \<and> \<not> KeywordFound r \<and> StatusCode r \<noteq> 200 \<longrightarrow>
      printResult D r out = out @ URL r @ '': Status='' @ fmt_d (StatusCode r)
        @ '', ResponseTime='' @ D (ResponseTime r) @ newline)"
  by (simp add: printResult_def Let_def)

lemma fmt_d_examples: "fmt_d 200 = ''200''" "fmt_d 404 = ''404''"
  by (simp_all add: fmt_d_def digits.simps digit_char_def)

text \<open>One line of each of the four kinds.\<close>

theorem printResult_line_witness:
  "printResult (\<lambda>d. ''7ns'')
     \<lparr>URL = ''http://a'', StatusCode = 200, ResponseTime = 7, KeywordFound = False, Error = []\<rparr> []
     = ''http://a: Status=200, ResponseTime=7ns, Keyword=NotFound'' @ newline
   \<and> printResult (\<lambda>d. ''7ns'')
     \<lparr>URL = ''http://a'', StatusCode = 404, ResponseTime = 7, KeywordFound = False, Error = []\<rparr> []
     = ''http://a: Status=404, ResponseTime=7ns'' @ newline
   \<and> printResult (\<lambda>d. ''7ns'')
     \<lparr>URL = ''http://a'', StatusCode = 404, ResponseTime = 7, KeywordFound = True, Error = []\<rparr> []
     = ''http://a: Status=404, ResponseTime=7ns, Keyword=Found'' @ newline
   \<and> printResult (\<lambda>d. ''7ns'')
     \<lparr>URL = [], StatusCode = 0, ResponseTime = 0, KeywordFound = False, Error = ''URL is empty''\<rparr> []
     = '': Error - URL is empty'' @ newline"
  using printResult_line [of "\<lparr>URL = ''http://a'', StatusCode = 200, ResponseTime = 7,
       KeywordFound = False, Error = []\<rparr>" "\<lambda>d. ''7ns''" "[]"]
    printResult_line [of "\<lparr>URL = ''http://a'', StatusCode = 404, ResponseTime = 7,
       KeywordFound = False, Error = []\<rparr>" "\<lambda>d. ''7ns''" "[]"]
    printResult_line [of "\<lparr>URL = ''http://a'', StatusCode = 404, ResponseTime = 7,
       KeywordFound = True, Error = []\<rparr>" "\<lambda>d. ''7ns''" "[]"]
    printResult_line [of "\<lparr>URL = [], StatusCode = 0, ResponseTime = 0,
       KeywordFound = False, Error = ''URL is empty''\<rparr>" "\<lambda>d. ''7ns''" "[]"]
  by (simp add: fmt_d_examples)

subsection \<open>checkURLs\<close>

text \<open>With a retry count in range the loop ends, whatever the network does.\<close>

lemma is_failure_err_of: "is_failure x \<Longrightarrow> x = TransportError (err_of x)"
  by (cases x) auto

lemma loop_terminates:
  assumes "0 \<le> n" "n < 2 ^ 63 - 1"
  shows "\<exists>x tr. attempt_loop g n 0 0 None [] = Some (Some x, tr)"
proof (cases "\<exists>m. int m \<le> n \<and> \<not> is_failure (g m)")
  case True
  define m where "m = (LEAST m. int m \<le> n \<and> \<not> is_failure (g m))"
  have m: "int m \<le> n \<and> \<not> is_failure (g m)"
    unfolding m_def using True by (rule LeastI_ex)
  have before: "is_failure (g j)" if "j < m" for j
  proof (rule ccontr)
    assume "\<not> is_failure (g j)"
    moreover have "int j \<le> n" using that m by simp
    ultimately have "m \<le> j" unfolding m_def by (intro Least_le) simp
    with that show False by simp
  qed
  obtain st body where resp: "g m = Response st body"
    using m by (cases "g m") auto
  have fails: "\<forall>j. 0 \<le> j \<and> j < m \<longrightarrow> g j = TransportError (err_of (g j))"
    using before is_failure_err_of by blast
  have "int m \<le> n" "n < 2 ^ 63" using m assms by auto
  then have "attempt_loop g n (int 0) 0 None [] =
          Some (Some (Response st body), [] @ retry_trace (\<lambda>j. err_of (g j)) 0 m @ [GotResponse st])"
    using resp fails by (intro loop_until_response) simp_all
  then show ?thesis by simp
next
  case False
  define N where "N = nat n"
  have n: "n = int N" using assms by (simp add: N_def)
  have "is_failure (g j)" if "j \<le> N" for j
    using False n that by auto
  then have fail: "\<forall>j. 0 \<le> j \<and> j \<le> N \<longrightarrow> g j = TransportError (err_of (g j))"
    using is_failure_err_of by blast
  have "int N < 2 ^ 63 - 1" using assms n by simp
  then have "attempt_loop g (int N) (int 0) 0 None [] =
          Some (Some (TransportError (err_of (g N))),
                [] @ retry_trace (\<lambda>j. err_of (g j)) 0 N @ [GetFailed (err_of (g N))])"
    using fail by (intro loop_all_failed) simp_all
  then show ?thesis by (simp add: n)
qed

lemma checkURL_returns:
  assumes "0 \<le> retries c" "retries c < 2 ^ 63 - 1"
  shows "\<exists>r tr. checkURL parse U c env rawURL keyword = Some (Return r, tr)"
proof (cases "validateURL parse rawURL")
  case (Inl e)
  then show ?thesis by (simp add: checkURL_def)
next
  case (Inr u)
  then have valid: "validateURL parse rawURL = Inr ()" by simp
  from loop_terminates[OF assms] obtain x tr where
    "attempt_loop (get env) (retries c) 0 0 None [] = Some (Some x, tr)" by blast
  moreover obtain r tr' where
    "after_loop U c env keyword (new_result rawURL) (Some x, tr) = (Return r, tr')"
    using after_loop_returns[of "Some x"] by blast
  ultimately show ?thesis by (simp add: checkURL_valid[OF valid])
qed

text \<open>The orders the step relation allows are the valid schedules.\<close>

lemma completion_distinct: "completion running order \<Longrightarrow> distinct order \<and> set order = running"
  by (induction rule: completion.induct) auto

lemma distinct_completion: "distinct order \<Longrightarrow> completion (set order) order"
proof (induction order)
  case Nil
  show ?case by (simp add: all_sent)
next
  case (Cons idx order)
  then have "set (idx # order) - {idx} = set order" by auto
  with Cons show ?case by (intro send) simp_all
qed

lemma completion_iff_valid_schedule: "completion {0..<n} order \<longleftrightarrow> valid_schedule n order"
  unfolding valid_schedule_def
  using completion_distinct distinct_completion by metis

text \<open>Reading the channel \<open>n\<close> times when it holds \<open>n\<close> results gives them in order.\<close>

lemma receive_prefix:
  assumes "length chan = n"
  shows "k \<le> n \<Longrightarrow>
    fold (\<lambda>i (results, ch). case receive ch of (r, ch') \<Rightarrow> (results[i := r], ch'))
      [0..<k] (replicate n zero_result, chan)
    = (take k chan @ replicate (n - k) zero_result, drop k chan)"
proof (induction k)
  case 0
  then show ?case by simp
next
  case (Suc k)
  then have k: "k < length chan" using assms by simp
  have d: "drop k chan = chan ! k # drop (Suc k) chan"
    using k by (simp add: Cons_nth_drop_Suc)
  have r: "replicate (n - k) zero_result = zero_result # replicate (n - Suc k) zero_result"
    using Suc.prems by (cases "n - k") (auto simp: Suc_diff_Suc)
  have "(take k chan @ replicate (n - k) zero_result)[k := chan ! k]
        = take (Suc k) chan @ replicate (n - Suc k) zero_result"
    using k by (simp add: r list_update_append take_Suc_conv_app_nth)
  then show ?case using Suc by (simp add: d)
qed

lemma receive_all_full: "length chan = n \<Longrightarrow> receive_all n chan = chan"
  using receive_prefix[of chan n n] by (simp add: receive_all_def)

lemma valid_schedule_length: "valid_schedule n order \<Longrightarrow> length order = n"
proof -
  assume "valid_schedule n order"
  then have "distinct order" "set order = {0..<n}" by (simp_all add: valid_schedule_def)
  then have "length order = card {0..<n}" using distinct_card[of order] by simp
  then show ?thesis by simp
qed

lemma valid_schedule_mset: "valid_schedule n order \<Longrightarrow> mset order = mset [0..<n]"
proof -
  assume "valid_schedule n order"
  then have "distinct order" "set order = set [0..<n]" by (simp_all add: valid_schedule_def)
  then show ?thesis using set_eq_iff_mset_eq_distinct[of order "[0..<n]"] by simp
qed

lemma dispatch_all_returned:
  assumes "valid_schedule (length urls) order"
    and "\<forall>i < length urls. check i (urls ! i) = Some (Return (per i))"
  shows "dispatch check order urls = Some (Return (map per order))"
proof -
  let ?n = "length urls"
  let ?finished = "map (\<lambda>idx. check idx (urls ! idx)) [0..<?n]"
  have fin: "?finished = map (\<lambda>i. Some (Return (per i))) [0..<?n]"
    using assms(2) by (intro map_cong) auto
  have np: "Some Panic \<notin> set ?finished" and nn: "None \<notin> set ?finished"
    unfolding fin by auto
  have inb: "\<forall>i \<in> set order. i < ?n"
    using assms(1) by (simp add: valid_schedule_def)
  have chan: "map (\<lambda>idx. returned (?finished ! idx)) order = map per order"
    using inb assms(2) by (intro map_cong) auto
  have len: "length (map per order) = ?n"
    using valid_schedule_length[OF assms(1)] by simp
  show ?thesis
    unfolding dispatch_def Let_def
    using np nn by (simp only: chan receive_all_full[OF len] if_False)
qed

lemma dispatch_returned:
  assumes "dispatch check order urls = Some (Return rs)"
  shows "\<forall>i < length urls. \<exists>r. check i (urls ! i) = Some (Return r)"
proof (intro allI impI)
  fix i assume i: "i < length urls"
  let ?finished = "map (\<lambda>idx. check idx (urls ! idx)) [0..<length urls]"
  have np: "Some Panic \<notin> set ?finished" and nn: "None \<notin> set ?finished"
    using assms by (auto simp: dispatch_def Let_def split: if_splits)
  have "check i (urls ! i) \<in> set ?finished" using i by auto
  with np nn have "check i (urls ! i) \<noteq> None" "check i (urls ! i) \<noteq> Some Panic"
    by metis+
  then show "\<exists>r. check i (urls ! i) = Some (Return r)"
  proof (cases "check i (urls ! i)")
    case None
    with \<open>check i (urls ! i) \<noteq> None\<close> show ?thesis by simp
  next
    case (Some out)
    with \<open>check i (urls ! i) \<noteq> Some Panic\<close> show ?thesis by (cases out) simp_all
  qed
qed

text \<open>
  Claim C10. Let \<open>order\<close> be any order in which the goroutines may finish. With
  \<open>0 \<le> retries < 2^63 - 1\<close> \<open>checkURLs\<close> returns. Whenever it returns, it returns as many
  results as there are URLs, and they are, as a multiset, the results \<open>per i\<close> of the calls
  \<open>checkURL(urls[i], keyword)\<close> of the goroutines \<open>i\<close>: every URL is checked once, and no
  result is lost or doubled. The same holds for \<open>checkURLs\<close> of \<open>main.go\<close>, which always
  returns.
\<close>

theorem checkURLs_same_results:
  assumes "valid_schedule (length urls) order"
  shows "(0 \<le> retries c \<and> retries c < 2 ^ 63 - 1 \<longrightarrow>
            (\<exists>rs. checkURLs parse U c env order urls keyword = Some (Return rs)))
       \<and> (\<forall>rs. checkURLs parse U c env order urls keyword = Some (Return rs) \<longrightarrow>
            length rs = length urls
            \<and> (\<exists>per. (\<forall>i < length urls. \<exists>tr.
                         checkURL parse U c (env i) (urls ! i) keyword = Some (Return (per i), tr))
                      \<and> mset rs = mset (map per [0..<length urls])))
       \<and> (\<exists>rs. checkURLs_main_go U env order urls keyword = Some (Return rs)
            \<and> length rs = length urls
            \<and> mset rs = mset (map (\<lambda>i. fst (checkURL_main_go U (env i) (urls ! i) keyword))
                                 [0..<length urls]))"
proof (intro conjI impI allI)
  let ?check = "\<lambda>idx u. map_option fst (checkURL parse U c (env idx) u keyword)"
  {
    assume "0 \<le> retries c \<and> retries c < 2 ^ 63 - 1"
    then have "\<forall>i. \<exists>r. ?check i (urls ! i) = Some (Return r)"
      using checkURL_returns[of c parse U] by (metis fst_conv option.simps(9))
    then obtain per where "\<forall>i. ?check i (urls ! i) = Some (Return (per i))" by metis
    then have "dispatch ?check order urls = Some (Return (map per order))"
      using assms by (intro dispatch_all_returned) simp_all
    then show "\<exists>rs. checkURLs parse U c env order urls keyword = Some (Return rs)"
      by (simp add: checkURLs_def)
  }
  {
    fix rs assume ret: "checkURLs parse U c env order urls keyword = Some (Return rs)"
    then have d: "dispatch ?check order urls = Some (Return rs)" by (simp add: checkURLs_def)
    from dispatch_returned[OF d]
    obtain per where per: "\<forall>i < length urls. ?check i (urls ! i) = Some (Return (per i))"
      by metis
    have rs: "rs = map per order"
      using dispatch_all_returned[where check = ?check and per = per, OF assms] per d by simp
    show "length rs = length urls"
      using rs valid_schedule_length[OF assms] by simp
    have "\<forall>i < length urls. \<exists>tr.
            checkURL parse U c (env i) (urls ! i) keyword = Some (Return (per i), tr)"
      using per by auto
    moreover have "mset rs = mset (map per [0..<length urls])"
      unfolding rs using valid_schedule_mset[OF assms] by (metis mset_map)
    ultimately show "\<exists>per. (\<forall>i < length urls. \<exists>tr.
                         checkURL parse U c (env i) (urls ! i) keyword = Some (Return (per i), tr))
                      \<and> mset rs = mset (map per [0..<length urls])"
      by blast
  }
  let ?per = "\<lambda>i. fst (checkURL_main_go U (env i) (urls ! i) keyword)"
  have "checkURLs_main_go U env order urls keyword = Some (Return (map ?per order))"
    unfolding checkURLs_main_go_def using assms by (intro dispatch_all_returned) simp_all
  moreover have "length (map ?per order) = length urls"
    using valid_schedule_length[OF assms] by simp
  moreover have "mset (map ?per order) = mset (map ?per [0..<length urls])"
    using valid_schedule_mset[OF assms] by (metis mset_map)
  ultimately show "\<exists>rs. checkURLs_main_go U env order urls keyword = Some (Return rs)
            \<and> length rs = length urls
            \<and> mset rs = mset (map (\<lambda>i. fst (checkURL_main_go U (env i) (urls ! i) keyword))
                                 [0..<length urls])"
    by blast
qed

lemma schedule_example: "valid_schedule 2 [1, 0]"
  by (auto simp: valid_schedule_def)

lemma schedule_example_urls: "valid_schedule (length [''http://a'', ''http://b'']) [1, 0]"
  by (auto simp: valid_schedule_def)

lemma run_ok:
  assumes "u = ''http://a'' \<or> u = ''http://b''" and "retries c = 0"
  shows "checkURL parse_examples id c
           \<lparr>get = (\<lambda>k. Response 200 (Inr [])), since_start = 7\<rparr> u []
         = Some (Return \<lparr>URL = u, StatusCode = 200, ResponseTime = 7, KeywordFound = False,
                          Error = []\<rparr>,
                 [GotResponse 200, ClosedBody])"
proof -
  have valid: "validateURL parse_examples u = Inr ()"
    using assms(1) by (auto simp: validateURL_def parse_examples_def)
  show ?thesis
    by (subst checkURL_first_response[where m = 0 and st = 200 and body = "Inr []", OF valid])
       (simp_all add: after_loop_def new_result_def retry_trace_def assms(2))
qed

theorem checkURLs_same_results_witness:
  "\<exists>rs. checkURLs parse_examples id \<lparr>client_timeout = 10 * Second, retries = 0\<rparr>
           (\<lambda>idx. \<lparr>get = (\<lambda>k. Response 200 (Inr [])), since_start = 7\<rparr>)
           [1, 0] [''http://a'', ''http://b''] [] = Some (Return rs)
        \<and> length rs = 2"
proof -
  note same = checkURLs_same_results [OF schedule_example_urls, where parse = parse_examples
      and c = "\<lparr>client_timeout = 10 * Second, retries = 0\<rparr>" and U = id and keyword = "[]"
      and env = "\<lambda>idx. \<lparr>get = (\<lambda>k. Response 200 (Inr [])), since_start = 7\<rparr>"]
  from same obtain rs where
    rs: "checkURLs parse_examples id \<lparr>client_timeout = 10 * Second, retries = 0\<rparr>
           (\<lambda>idx. \<lparr>get = (\<lambda>k. Response 200 (Inr [])), since_start = 7\<rparr>)
           [1, 0] [''http://a'', ''http://b''] [] = Some (Return rs)"
    by auto
  with same have "length rs = length [''http://a'', ''http://b'']" by blast
  with rs show ?thesis by auto
qed

text \<open>A result keeps the URL it was asked to check, so the result at index \<open>i\<close> is the one
  of the URL whose check finished as number \<open>i\<close>.\<close>

lemma checkURL_keeps_URL:
  assumes "checkURL parse U c env rawURL keyword = Some (Return r, tr)"
  shows "URL r = rawURL"
proof -
  from checkURL_cases[OF assms] show ?thesis
  proof (elim disjE exE conjE)
    fix err
    assume "Return r = Return ((new_result rawURL)\<lparr>Error := error_text err\<rparr>)"
    then show ?thesis by (simp add: new_result_def)
  next
    fix x ltr
    assume "after_loop U c env keyword (new_result rawURL) (x, ltr) = (Return r, tr)"
    then show ?thesis
      by (auto simp: after_loop_def new_result_def Let_def
            split: option.splits get_outcome.splits sum.splits if_splits)
  qed
qed

lemma checkURLs_follow_schedule:
  assumes "valid_schedule (length urls) order"
    and "checkURLs parse U c env order urls keyword = Some (Return rs)"
    and "i < length urls"
  shows "URL (rs ! i) = urls ! (order ! i)"
proof -
  let ?check = "\<lambda>idx u. map_option fst (checkURL parse U c (env idx) u keyword)"
  have d: "dispatch ?check order urls = Some (Return rs)"
    using assms(2) by (simp add: checkURLs_def)
  from dispatch_returned[OF d]
  obtain per where per: "\<forall>i < length urls. ?check i (urls ! i) = Some (Return (per i))"
    by metis
  have rs: "rs = map per order"
    using dispatch_all_returned[where check = ?check and per = per, OF assms(1)] per d by simp
  have len: "length order = length urls" by (rule valid_schedule_length[OF assms(1)])
  have j: "order ! i < length urls"
    using assms(1,3) len by (auto simp: valid_schedule_def dest: nth_mem)
  then obtain tr where
    "checkURL parse U c (env (order ! i)) (urls ! (order ! i)) keyword
       = Some (Return (per (order ! i)), tr)"
    using per by auto
  then have "URL (per (order ! i)) = urls ! (order ! i)" by (rule checkURL_keeps_URL)
  then show ?thesis using rs assms(3) len by simp
qed

text \<open>
  Claim C1, at an input where the code does not do what the claim says. Two URLs are
  checked and the check of the second finishes first (\<open>order = [1, 0]\<close>). \<open>checkURLs\<close>
  returns the result for \<open>http://b\<close> at index 0 and the one for \<open>http://a\<close> at index 1:
  the results are in the order of completion, not in the order of the input.
\<close>

theorem checkURLs_completion_order:
  "valid_schedule 2 [1, 0]
   \<and> checkURLs parse_examples id \<lparr>client_timeout = 10 * Second, retries = 0\<rparr>
        (\<lambda>idx. \<lparr>get = (\<lambda>k. Response 200 (Inr [])), since_start = 7\<rparr>)
        [1, 0] [''http://a'', ''http://b''] []
      = Some (Return
          [\<lparr>URL = ''http://b'', StatusCode = 200, ResponseTime = 7, KeywordFound = False,
             Error = []\<rparr>,
           \<lparr>URL = ''http://a'', StatusCode = 200, ResponseTime = 7, KeywordFound = False,
             Error = []\<rparr>])
   \<and> checkURLs_main_go id
        (\<lambda>idx. \<lparr>get = (\<lambda>k. Response 200 (Inr [])), since_start = 7\<rparr>)
        [1, 0] [''http://a'', ''http://b''] []
      = Some (Return
          [\<lparr>URL = ''http://b'', StatusCode = 200, ResponseTime = 7, KeywordFound = False,
             Error = []\<rparr>,
           \<lparr>URL = ''http://a'', StatusCode = 200, ResponseTime = 7, KeywordFound = False,
             Error = []\<rparr>])"
proof (intro conjI)
  show "valid_schedule 2 [1, 0]" by (rule schedule_example)
  let ?per = "\<lambda>i. \<lparr>URL = [''http://a'', ''http://b''] ! i, StatusCode = 200, ResponseTime = 7,
                      KeywordFound = False, Error = []\<rparr>"
  have "dispatch (\<lambda>idx u. map_option fst
           (checkURL parse_examples id \<lparr>client_timeout = 10 * Second, retries = 0\<rparr>
              \<lparr>get = (\<lambda>k. Response 200 (Inr [])), since_start = 7\<rparr> u []))
          [1, 0] [''http://a'', ''http://b''] = Some (Return (map ?per [1, 0]))"
  proof (rule dispatch_all_returned)
    show "valid_schedule (length [''http://a'', ''http://b'']) [1, 0]"
      by (rule schedule_example_urls)
    show "\<forall>i<length [''http://a'', ''http://b''].
       map_option fst
        (checkURL parse_examples id \<lparr>client_timeout = 10 * Second, retries = 0\<rparr>
          \<lparr>get = \<lambda>k. Response 200 (Inr []), since_start = 7\<rparr>
          ([''http://a'', ''http://b''] ! i) []) =
       Some (Return (?per i))"
    proof (intro allI impI)
      fix i assume "i < length [''http://a'', ''http://b'']"
      then have "i = 0 \<or> i = 1" by auto
      then have "[''http://a'', ''http://b''] ! i = ''http://a'' \<or>
                 [''http://a'', ''http://b''] ! i = ''http://b''" by auto
      from run_ok[OF this, of "\<lparr>client_timeout = 10 * Second, retries = 0\<rparr>"]
      show "map_option fst
        (checkURL parse_examples id \<lparr>client_timeout = 10 * Second, retries = 0\<rparr>
          \<lparr>get = \<lambda>k. Response 200 (Inr []), since_start = 7\<rparr>
          ([''http://a'', ''http://b''] ! i) []) =
       Some (Return (?per i))" by simp
    qed
  qed
  then show "checkURLs parse_examples id \<lparr>client_timeout = 10 * Second, retries = 0\<rparr>
        (\<lambda>idx. \<lparr>get = (\<lambda>k. Response 200 (Inr [])), since_start = 7\<rparr>)
        [1, 0] [''http://a'', ''http://b''] []
      = Some (Return
          [\<lparr>URL = ''http://b'', StatusCode = 200, ResponseTime = 7, KeywordFound = False,
             Error = []\<rparr>,
           \<lparr>URL = ''http://a'', StatusCode = 200, ResponseTime = 7, KeywordFound = False,
             Error = []\<rparr>])"
    by (simp add: checkURLs_def)
  have "dispatch (\<lambda>idx u. Some (Return (fst
           (checkURL_main_go id \<lparr>get = (\<lambda>k. Response 200 (Inr [])), since_start = 7\<rparr> u []))))
          [1, 0] [''http://a'', ''http://b''] = Some (Return (map ?per [1, 0]))"
  proof (rule dispatch_all_returned)
    show "valid_schedule (length [''http://a'', ''http://b'']) [1, 0]"
      by (rule schedule_example_urls)
    show "\<forall>i<length [''http://a'', ''http://b''].
       Some (Return (fst
         (checkURL_main_go id \<lparr>get = \<lambda>k. Response 200 (Inr []), since_start = 7\<rparr>
            ([''http://a'', ''http://b''] ! i) []))) =
       Some (Return (?per i))"
      by (simp add: checkURL_main_go_def new_result_def)
  qed
  then show "checkURLs_main_go id
        (\<lambda>idx. \<lparr>get = (\<lambda>k. Response 200 (Inr [])), since_start = 7\<rparr>)
        [1, 0] [''http://a'', ''http://b''] []
      = Some (Return
          [\<lparr>URL = ''http://b'', StatusCode = 200, ResponseTime = 7, KeywordFound = False,
             Error = []\<rparr>,
           \<lparr>URL = ''http://a'', StatusCode = 200, ResponseTime = 7, KeywordFound = False,
             Error = []\<rparr>])"
    by (simp add: checkURLs_main_go_def)
qed

subsection \<open>main\<close>

text \<open>
  Claim C2, at an input where the code does not do what the claim says. With a timeout
  of 0 seconds, which is invalid, \<open>main\<close> prints nothing and does not exit: it reaches the
  \<open>Run\<close> of the subcommand with a checker built from this value, and the check of
  \<open>http://a\<close> with that checker calls \<open>Get\<close> and returns the status of the response.
  The checks exist (\<open>check_flags\<close> alone would print the error and exit with code 1), but
  the hook that holds them never runs, because \<open>PersistentPreRunE\<close> is set on the same
  command.
\<close>

theorem main_skips_check_flags:
  "main \<lparr>timeoutSeconds = 0, retriesFlag = 0, outputFormat = ''csv''\<rparr>
     = \<lparr>printed = [], exit_code = None,
        checker = Some \<lparr>client_timeout = 0, retries = 0\<rparr>\<rparr>
   \<and> check_flags \<lparr>timeoutSeconds = 0, retriesFlag = 0, outputFormat = ''csv''\<rparr> start
     = \<lparr>printed = [''Error: timeout must be positive''], exit_code = Some 1, checker = None\<rparr>
   \<and> checkURL parse_examples id \<lparr>client_timeout = 0, retries = 0\<rparr>
        \<lparr>get = (\<lambda>k. Response 200 (Inr [])), since_start = 7\<rparr> ''http://a'' []
     = Some (Return \<lparr>URL = ''http://a'', StatusCode = 200, ResponseTime = 7,
                      KeywordFound = False, Error = []\<rparr>,
             [GotResponse 200, ClosedBody])"
proof (intro conjI)
  show "main \<lparr>timeoutSeconds = 0, retriesFlag = 0, outputFormat = ''csv''\<rparr>
     = \<lparr>printed = [], exit_code = None,
        checker = Some \<lparr>client_timeout = 0, retries = 0\<rparr>\<rparr>"
    by (simp add: main_def run_persistent_hooks_def init_checker_def start_def
          NewURLChecker_def wrap64_def Second_def)
  show "check_flags \<lparr>timeoutSeconds = 0, retriesFlag = 0, outputFormat = ''csv''\<rparr> start
     = \<lparr>printed = [''Error: timeout must be positive''], exit_code = Some 1, checker = None\<rparr>"
    by (simp add: check_flags_def start_def Println_def Exit_def)
  show "checkURL parse_examples id \<lparr>client_timeout = 0, retries = 0\<rparr>
        \<lparr>get = (\<lambda>k. Response 200 (Inr [])), since_start = 7\<rparr> ''http://a'' []
     = Some (Return \<lparr>URL = ''http://a'', StatusCode = 200, ResponseTime = 7,
                      KeywordFound = False, Error = []\<rparr>,
             [GotResponse 200, ClosedBody])"
    by (rule run_ok) simp_all
qed

text \<open>Whatever the flags, \<open>main\<close> reports no configuration error.\<close>

lemma main_never_exits: "exit_code (main fl) = None \<and> printed (main fl) = []"
  by (simp add: main_def run_persistent_hooks_def init_checker_def start_def)

end
